theory Spec2Isabelle
  imports Main "HOL-Library.Sublist"
begin

section \<open>The string functions of the Go library that package do calls\<close>

text \<open>
  Go strings and byte slices are byte sequences: both are \<open>string\<close> (a list of
  \<open>char\<close>) here. The functions below follow the documented behaviour of the Go standard
  library on byte strings.
\<close>

text \<open>\<^verbatim>\<open>strings.HasPrefix(s, prefix)\<close>\<close>

definition HasPrefix :: "string \<Rightarrow> string \<Rightarrow> bool" where
  "HasPrefix s p = prefix p s"

text \<open>\<^verbatim>\<open>strings.Contains(s, substr)\<close>: \<open>substr\<close> occurs somewhere in \<open>s\<close>.\<close>

fun Contains :: "string \<Rightarrow> string \<Rightarrow> bool" where
  "Contains [] substr = (substr = [])"
| "Contains (c # cs) substr = (prefix substr (c # cs) \<or> Contains cs substr)"

text \<open>
  \<^verbatim>\<open>strings.Replace(s, old, new, -1)\<close>: every non-overlapping instance of \<open>old\<close>,
  found from left to right, is replaced by \<open>new\<close>. For an empty \<open>old\<close> Go inserts
  \<open>new\<close> before every character and at the end; package do never passes an empty
  \<open>old\<close>.
\<close>

function Replace :: "string \<Rightarrow> string \<Rightarrow> string \<Rightarrow> string" where
  "Replace [] old new = (if old = [] then new else [])"
| "Replace (c # cs) old new =
     (if old = [] then new @ c # Replace cs old new
      else if prefix old (c # cs) then new @ Replace (drop (length old) (c # cs)) old new
      else c # Replace cs old new)"
  by pat_completeness auto
termination
  by (relation "measure (\<lambda>(s, old, new). length s)") auto

text \<open>
  \<^verbatim>\<open>strings.Split(s, sep)\<close>: the pieces of \<open>s\<close> between the instances of \<open>sep\<close>; with
  an empty \<open>sep\<close> Go cuts the string after every UTF-8 sequence and the model after
  every byte, which is the same on ASCII text. \<open>split_from\<close> carries the piece read so
  far.
\<close>

function split_from :: "string \<Rightarrow> string \<Rightarrow> string \<Rightarrow> string list" where
  "split_from [] sep piece = [piece]"
| "split_from (c # cs) sep piece =
     (if sep \<noteq> [] \<and> prefix sep (c # cs)
      then piece # split_from (drop (length sep) (c # cs)) sep []
      else split_from cs sep (piece @ [c]))"
  by pat_completeness auto
termination
  by (relation "measure (\<lambda>(s, sep, piece). length s)") auto

definition Split_str :: "string \<Rightarrow> string \<Rightarrow> string list" where
  "Split_str s sep = (if sep = [] then map (\<lambda>c. [c]) s else split_from s sep [])"

text \<open>\<^verbatim>\<open>strings.Join(elems, sep)\<close>\<close>

fun Join :: "string list \<Rightarrow> string \<Rightarrow> string" where
  "Join [] sep = []"
| "Join [e] sep = e"
| "Join (e # es) sep = e @ sep @ Join es sep"

text \<open>
  \<^verbatim>\<open>path.Base(p)\<close>: the last element of a slash-separated path, after the trailing
  slashes are removed; \<open>.\<close> for the empty path and \<open>/\<close> for a path of slashes only.
\<close>

definition path_Base :: "string \<Rightarrow> string" where
  "path_Base p =
     (if p = [] then ''.''
      else let q = rev (dropWhile (\<lambda>c. c = CHR ''/'') (rev p))
           in if q = [] then ''/'' else rev (takeWhile (\<lambda>c. c \<noteq> CHR ''/'') (rev q)))"

section \<open>Values, errors and files\<close>

text \<open>
  A Go \<open>error\<close> is modelled by its message; \<open>None\<close> is the nil error. An
  \<^verbatim>\<open>*os.File\<close> is its name and its descriptor; the descriptor stands for the pointer's
  identity.
\<close>

type_synonym error = string

datatype osfile = OsFile (fname: string) (fd: nat)

text \<open>
  The values of type \<^verbatim>\<open>interface{}\<close> that flow between the stages: nil, a string, a
  byte slice, a file, the \<^verbatim>\<open>save\<close> marker of \<open>SaveInVar\<close>, a \<^verbatim>\<open>SplitResult\<close>, the
  \<^verbatim>\<open>interceptExec\<close> envelope, and any other value (a struct, a number), kept opaque.
  The \<open>Vars\<close> map of the envelope is a list of its entries: Go ranges over a map in an
  unspecified order, so a statement about \<open>Exec\<close> is made for every list of entries.
  A nil \<^verbatim>\<open>*os.File\<close> is not among the values. \<open>Run\<close> does not look at a value
  returned with an error, as the nil file of a failed \<^verbatim>\<open>os.Open\<close> is; a stage that
  returns a nil file with a nil error (\<open>Insert\<close> of one does) makes \<open>Run\<close> panic at
  \<^verbatim>\<open>f.Name()\<close>, and the statements below are about the runs in which no stage does.
\<close>

datatype val =
    VNil
  | VString string
  | VBytes string
  | VFile osfile
  | VOther nat
  | VSave string val
  | VSplitResult val val
  | VInterceptExec val "(string \<times> val) list"

definition temporaryFilePrefix :: string where
  "temporaryFilePrefix = ''godo-temporary-file''"

section \<open>Exec: substitution and execution\<close>

definition msg_replace :: error where
  "msg_replace = ''don'' @ [CHR 0x27] @
     ''t know how to replace content, required: string, []byte or *os.File''"

definition msg_not_intercepted :: error where
  "msg_not_intercepted = ''exec command wasn'' @ [CHR 0x27] @ ''t intercepted''"

text \<open>\<^verbatim>\<open>fmt.Sprintf("#{%s}", varName)\<close>\<close>

definition placeholder :: "string \<Rightarrow> string" where
  "placeholder varName = ''#{'' @ varName @ ''}''"

text \<open>\<open>replaceVar\<close> returns the pair \<^verbatim>\<open>(string, error)\<close> of the source.\<close>

definition replaceVar :: "string \<Rightarrow> string \<Rightarrow> val \<Rightarrow> string \<times> error option" where
  "replaceVar cmd varName with =
     (case with of
        VBytes d \<Rightarrow> (Replace cmd (placeholder varName) d, None)
      | VString d \<Rightarrow> (Replace cmd (placeholder varName) d, None)
      | VFile f \<Rightarrow> (Replace cmd (placeholder varName) (fname f), None)
      | _ \<Rightarrow> ([], Some msg_replace))"

text \<open>
  The loop \<^verbatim>\<open>for varName, i := range data.Vars\<close> of \<open>Exec\<close>, over the entries in the
  order the range yields them. It assigns both results of \<open>replaceVar\<close> to \<open>cmd\<close> and
  \<open>err\<close>, and leaves at the first error.
\<close>

fun replaceVars :: "(string \<times> val) list \<Rightarrow> string \<Rightarrow> string \<times> error option" where
  "replaceVars [] cmd = (cmd, None)"
| "replaceVars ((varName, i) # rest) cmd =
     (case replaceVar cmd varName i of
        (cmd', Some e) \<Rightarrow> (cmd', Some e)
      | (cmd', None) \<Rightarrow> replaceVars rest cmd')"

text \<open>The inner type switch of \<open>Exec\<close>, on the value the previous stage returned.\<close>

definition replaceAmbient :: "string \<Rightarrow> val \<Rightarrow> string" where
  "replaceAmbient cmd d =
     (case d of
        VBytes b \<Rightarrow> Replace cmd ''#{content}'' b
      | VString s \<Rightarrow> Replace cmd ''#{content}'' s
      | VFile f \<Rightarrow> Replace cmd ''#{file}'' (fname f)
      | _ \<Rightarrow> cmd)"

text \<open>
  The body of the closure that \<open>Exec(cmd)\<close> returns, up to the call of \<open>doExecute\<close>.
  The closure assigns to the variable \<open>cmd\<close> it captured, so the function takes the
  current content of that variable and returns its content after the call, with the error.
  When the error is \<open>None\<close> the returned text is the command handed to \<open>doExecute\<close>.
\<close>

definition Exec_resolve :: "string \<Rightarrow> val \<Rightarrow> string \<times> error option" where
  "Exec_resolve cmd input =
     (case input of
        VInterceptExec d vs \<Rightarrow> replaceVars vs (replaceAmbient cmd d)
      | _ \<Rightarrow> (cmd, Some msg_not_intercepted))"

text \<open>
  What \<open>doExecute\<close> observes of the operating system and of the two goroutines that
  drain the pipes: the error of each call, the errors \<open>errOut\<close> and \<open>errErr\<close> of the two
  \<^verbatim>\<open>io.Copy\<close> as read at the final test, and the bytes collected from standard output.
\<close>

record proc =
  getwd_err :: "error option"
  stdout_pipe_err :: "error option"
  stderr_pipe_err :: "error option"
  start_err :: "error option"
  wait_err :: "error option"
  errOut :: "error option"
  errErr :: "error option"
  outBuff :: string

definition doExecute :: "proc \<Rightarrow> val \<times> error option" where
  "doExecute p =
     (if getwd_err p \<noteq> None then (VNil, getwd_err p)
      else if stdout_pipe_err p \<noteq> None then (VNil, stdout_pipe_err p)
      else if stderr_pipe_err p \<noteq> None then (VNil, stderr_pipe_err p)
      else if start_err p \<noteq> None then (VNil, start_err p)
      else let err = wait_err p in
        if err \<noteq> None then (VNil, err)
        else if errOut p \<noteq> None \<or> errErr p \<noteq> None then (VNil, err)
        else (VBytes (outBuff p), None))"

section \<open>ExcludeLines\<close>

text \<open>
  The stage function that \<open>ExcludeLines(separator, exclusions...)\<close> returns; it touches
  neither the progress writer nor the file system.
\<close>

definition ExcludeLines_fn :: "string \<Rightarrow> string list \<Rightarrow> val \<Rightarrow> val \<times> error option" where
  "ExcludeLines_fn separator exclusions input =
     (let content = (case input of
                       VBytes d \<Rightarrow> Split_str d separator
                     | VString d \<Rightarrow> Split_str d separator
                     | _ \<Rightarrow> []);
          out = filter (\<lambda>line. \<not> (\<exists>exclude \<in> set exclusions. Contains line exclude)) content
      in (VString (Join out separator), None))"

section \<open>The operating system\<close>

text \<open>
  The part of the operating system that the stages and the cleanup of \<open>Run\<close> act on:
  the files on disk with their content, the descriptors that are open, the operations
  the system refuses for a reason of its own (permissions, a full disk), and the content
  of the variable \<open>cmd\<close> captured by each closure that \<open>Exec\<close> has returned. The list
  \<open>calls\<close> records every operation attempted, in order; nothing reads it.
\<close>

datatype syscall = SysCreate string | SysWrite nat | SysClose nat | SysRemove string

record world =
  disk :: "string \<rightharpoonup> string"
  opened :: "nat set"
  next_fd :: nat
  refused :: "syscall set"
  cells :: "nat \<Rightarrow> string"
  calls :: "syscall list"

text \<open>\<^verbatim>\<open>f.Close()\<close>: fails on a file that is already closed.\<close>

definition os_Close :: "osfile \<Rightarrow> world \<Rightarrow> error option \<times> world" where
  "os_Close f w =
     (let w1 = w\<lparr>calls := calls w @ [SysClose (fd f)]\<rparr>
      in if fd f \<notin> opened w then (Some (''close '' @ fname f @ '': file already closed''), w1)
         else if SysClose (fd f) \<in> refused w
         then (Some (''close '' @ fname f @ '': input/output error''),
               w1\<lparr>opened := opened w - {fd f}\<rparr>)
         else (None, w1\<lparr>opened := opened w - {fd f}\<rparr>))"

text \<open>\<^verbatim>\<open>os.Remove(name)\<close>: fails on a name that is not on disk.\<close>

definition os_Remove :: "string \<Rightarrow> world \<Rightarrow> error option \<times> world" where
  "os_Remove name w =
     (let w1 = w\<lparr>calls := calls w @ [SysRemove name]\<rparr>
      in if disk w name = None then (Some (''remove '' @ name @ '': no such file or directory''), w1)
         else if SysRemove name \<in> refused w
         then (Some (''remove '' @ name @ '': permission denied''), w1)
         else (None, w1\<lparr>disk := (disk w)(name := None)\<rparr>))"

text \<open>The decimal digits of a number.\<close>

fun decimal :: "nat \<Rightarrow> string" where
  "decimal n =
     (if n < 10 then [''0123456789'' ! n]
      else decimal (n div 10) @ [''0123456789'' ! (n mod 10)])"

declare decimal.simps [simp del]

text \<open>
  \<^verbatim>\<open>ioutil.TempFile("", prefix)\<close>: a new file in the temporary directory, opened for
  writing, named by the prefix and a string of digits. Go draws the digits at random and
  gives up after too many names that exist; here the digits are those of the next
  descriptor, and a name that exists is the failure.
\<close>

definition ioutil_TempFile :: "string \<Rightarrow> world \<Rightarrow> (error + osfile) \<times> world" where
  "ioutil_TempFile pfx w =
     (let name = ''/tmp/'' @ pfx @ decimal (next_fd w);
          w1 = w\<lparr>calls := calls w @ [SysCreate name]\<rparr>
      in if disk w name \<noteq> None \<or> SysCreate name \<in> refused w
         then (Inl (''open '' @ name @ '': cannot create temporary file''), w1)
         else (Inr (OsFile name (next_fd w)),
               w1\<lparr>disk := (disk w)(name \<mapsto> []),
                  opened := insert (next_fd w) (opened w),
                  next_fd := Suc (next_fd w)\<rparr>))"

text \<open>\<^verbatim>\<open>f.Write(content)\<close>: appends to the file of an open descriptor.\<close>

definition file_Write :: "osfile \<Rightarrow> string \<Rightarrow> world \<Rightarrow> error option \<times> world" where
  "file_Write f content w =
     (let w1 = w\<lparr>calls := calls w @ [SysWrite (fd f)]\<rparr>
      in if fd f \<notin> opened w then (Some (''write '' @ fname f @ '': file already closed''), w1)
         else if SysWrite (fd f) \<in> refused w
         then (Some (''write '' @ fname f @ '': no space left on device''), w1)
         else (None, w1\<lparr>disk := (disk w)(fname f \<mapsto>
                  (case disk w (fname f) of None \<Rightarrow> content | Some old \<Rightarrow> old @ content))\<rparr>))"

section \<open>Stages\<close>

text \<open>
  A \<open>StageFn\<close> takes the input value and returns the output value and the error; it may
  act on the operating system. The progress writer only receives text and is left out;
  its one effect on a result, a failed write while a pipe is drained, is part of
  \<open>proc\<close>. \<open>Run\<close> recognises the closures of \<open>Exec\<close> by the name of their function;
  \<open>is_exec\<close> is the outcome of that test.
\<close>

record stage =
  is_exec :: bool
  call :: "val \<Rightarrow> world \<Rightarrow> (val \<times> error option) \<times> world"

definition Insert :: "val \<Rightarrow> stage" where
  "Insert v = \<lparr>is_exec = False, call = (\<lambda>_ w. ((v, None), w))\<rparr>"

text \<open>\<^verbatim>\<open>regexp.Match("^[a-zA-Z]+$", varName)\<close>\<close>

definition letters :: string where
  "letters = ''abcdefghijklmnopqrstuvwxyzABCDEFGHIJKLMNOPQRSTUVWXYZ''"

definition matches_letters :: "string \<Rightarrow> bool" where
  "matches_letters varName = (varName \<noteq> [] \<and> (\<forall>c \<in> set varName. c \<in> set letters))"

definition msg_invalid_name :: error where
  "msg_invalid_name =
     ''not a valid variable name, must match: [a-zA-Z] (excluding: content, file)''"

definition SaveInVar :: "string \<Rightarrow> stage" where
  "SaveInVar varName = \<lparr>is_exec = False, call = (\<lambda>input w.
     if varName = ''content'' \<or> varName = ''file'' \<or> \<not> matches_letters varName
     then ((VNil, Some msg_invalid_name), w)
     else ((VSave varName input, None), w))\<rparr>"

definition msg_string_or_bytes :: error where
  "msg_string_or_bytes = ''provided input must be string or []byte''"

definition WriteTempFile_fn :: "val \<Rightarrow> world \<Rightarrow> (val \<times> error option) \<times> world" where
  "WriteTempFile_fn input w =
     (case (case input of VString d \<Rightarrow> Some d | VBytes d \<Rightarrow> Some d | _ \<Rightarrow> None) of
        None \<Rightarrow> ((VNil, Some msg_string_or_bytes), w)
      | Some content \<Rightarrow>
         (case ioutil_TempFile temporaryFilePrefix w of
            (Inl e, w1) \<Rightarrow> ((VNil, Some e), w1)
          | (Inr f, w1) \<Rightarrow>
             (case file_Write f content w1 of
                (Some e, w2) \<Rightarrow> ((VNil, Some e), w2)
              | (None, w2) \<Rightarrow>
                 (case os_Close f w2 of
                    (Some e, w3) \<Rightarrow> ((VNil, Some e), w3)
                  | (None, w3) \<Rightarrow> ((VFile f, None), w3)))))"

definition WriteTempFile :: stage where
  "WriteTempFile = \<lparr>is_exec = False, call = WriteTempFile_fn\<rparr>"

definition ExcludeLines :: "string \<Rightarrow> string list \<Rightarrow> stage" where
  "ExcludeLines separator exclusions =
     \<lparr>is_exec = False, call = (\<lambda>input w. (ExcludeLines_fn separator exclusions input, w))\<rparr>"

text \<open>
  The closure of \<open>Exec\<close> whose captured \<open>cmd\<close> is cell \<open>a\<close> of the world:
  \<open>Exec(cmd)\<close> returns such a closure with the cell holding \<open>cmd\<close>. The shell that runs
  a command, with all it does to the system, and the order in which the range over the
  map yields its entries are parameters.
\<close>

definition Exec_fn ::
  "(string \<Rightarrow> world \<Rightarrow> proc \<times> world) \<Rightarrow> ((string \<times> val) list \<Rightarrow> (string \<times> val) list) \<Rightarrow>
   nat \<Rightarrow> val \<Rightarrow> world \<Rightarrow> (val \<times> error option) \<times> world" where
  "Exec_fn shell range_order a input w =
     (let (cmd, e) = Exec_resolve (cells w a)
                       (case input of
                          VInterceptExec d vs \<Rightarrow> VInterceptExec d (range_order vs)
                        | v \<Rightarrow> v);
          w1 = w\<lparr>cells := (cells w)(a := cmd)\<rparr>
      in if e \<noteq> None then ((VNil, e), w1)
         else (let (p, w2) = shell cmd w1 in (doExecute p, w2)))"

definition Exec ::
  "(string \<Rightarrow> world \<Rightarrow> proc \<times> world) \<Rightarrow> ((string \<times> val) list \<Rightarrow> (string \<times> val) list) \<Rightarrow>
   nat \<Rightarrow> stage" where
  "Exec shell range_order a = \<lparr>is_exec = True, call = Exec_fn shell range_order a\<rparr>"

section \<open>Run\<close>

text \<open>
  The variables of \<open>Run\<close>: the named results \<open>input\<close> and \<open>err\<close>, the map \<open>vars\<close> as
  the list of its entries in the order they were stored, and the two lists of files.
\<close>

record run_state =
  input :: val
  err :: "error option"
  vars :: "(string \<times> val) list"
  closeFiles :: "osfile list"
  removeTempFiles :: "osfile list"

definition init_state :: run_state where
  "init_state = \<lparr>input = VNil, err = None, vars = [], closeFiles = [], removeTempFiles = []\<rparr>"

text \<open>The value a stage is called with: the envelope for a closure of \<open>Exec\<close>.\<close>

definition stage_arg :: "stage \<Rightarrow> run_state \<Rightarrow> val" where
  "stage_arg st s = (if is_exec st then VInterceptExec (input s) (vars s) else input s)"

definition msg_duplicate :: "string \<Rightarrow> error" where
  "msg_duplicate varName = ''variable: '' @ varName @ '' already exists''"

text \<open>
  One iteration of the loop over the stages. The flag is \<open>False\<close> when the iteration
  leaves the loop (\<^verbatim>\<open>break\<close>, \<^verbatim>\<open>break ToExecution\<close>).
\<close>

definition run_step :: "stage \<Rightarrow> run_state \<Rightarrow> world \<Rightarrow> bool \<times> run_state \<times> world" where
  "run_step st s w =
     (let ((out, e), w1) = call st (stage_arg st s) w;
          s1 = s\<lparr>input := out, err := e\<rparr>
      in if e \<noteq> None then (False, s1, w1)
         else (case out of
                 VFile f \<Rightarrow>
                   if HasPrefix (path_Base (fname f)) temporaryFilePrefix
                   then (True, s1\<lparr>removeTempFiles := removeTempFiles s1 @ [f]\<rparr>, w1)
                   else (True, s1\<lparr>closeFiles := closeFiles s1 @ [f]\<rparr>, w1)
               | VSave varName v \<Rightarrow>
                   if varName \<in> set (map fst (vars s1))
                   then (False, s1\<lparr>err := Some (msg_duplicate varName)\<rparr>, w1)
                   else (True, s1\<lparr>vars := vars s1 @ [(varName, v)]\<rparr>, w1)
               | _ \<Rightarrow> (True, s1, w1)))"

fun run_stages :: "stage list \<Rightarrow> run_state \<Rightarrow> world \<Rightarrow> run_state \<times> world" where
  "run_stages [] s w = (s, w)"
| "run_stages (st # rest) s w =
     (case run_step st s w of
        (True, s1, w1) \<Rightarrow> run_stages rest s1 w1
      | (False, s1, w1) \<Rightarrow> (s1, w1))"

text \<open>
  The two cleanup loops. Each assigns the result of every operation to \<open>err\<close> and
  returns from \<open>Run\<close> at the first one that fails; the flag tells whether it did.
\<close>

fun close_loop :: "osfile list \<Rightarrow> error option \<Rightarrow> world \<Rightarrow> (bool \<times> error option) \<times> world" where
  "close_loop [] e w = ((False, e), w)"
| "close_loop (f # fs) e w =
     (case os_Close f w of
        (Some e1, w1) \<Rightarrow> ((True, Some e1), w1)
      | (None, w1) \<Rightarrow> close_loop fs None w1)"

fun remove_loop :: "osfile list \<Rightarrow> error option \<Rightarrow> world \<Rightarrow> (bool \<times> error option) \<times> world" where
  "remove_loop [] e w = ((False, e), w)"
| "remove_loop (f # fs) e w =
     (case os_Remove (fname f) w of
        (Some e1, w1) \<Rightarrow> ((True, Some e1), w1)
      | (None, w1) \<Rightarrow> remove_loop fs None w1)"

definition cleanup :: "run_state \<Rightarrow> world \<Rightarrow> (bool \<times> error option) \<times> world" where
  "cleanup s w =
     (case close_loop (closeFiles s) (err s) w of
        ((True, e1), w1) \<Rightarrow> ((True, e1), w1)
      | ((False, e1), w1) \<Rightarrow> remove_loop (removeTempFiles s) e1 w1)"

definition Run :: "stage list \<Rightarrow> world \<Rightarrow> (val \<times> error option) \<times> world" where
  "Run stages w =
     (case run_stages stages init_state w of
        (s, w1) \<Rightarrow> (case cleanup s w1 of ((_, e), w2) \<Rightarrow> ((input s, e), w2)))"

section \<open>Split\<close>

text \<open>
  The stage function of \<open>Split(left, right)\<close>; its parameter \<open>input\<close> is \<open>v\<close> here.
\<close>

definition Split_fn :: "stage list \<Rightarrow> stage list \<Rightarrow> val \<Rightarrow> world \<Rightarrow> (val \<times> error option) \<times> world" where
  "Split_fn left right v w =
     (case Run (Insert v # left) w of
        ((l, Some e), w1) \<Rightarrow> ((v, Some e), w1)
      | ((l, None), w1) \<Rightarrow>
         (case Run (Insert v # right) w1 of
            ((r, Some e), w2) \<Rightarrow> ((v, Some e), w2)
          | ((r, None), w2) \<Rightarrow> ((VSplitResult l r, None), w2)))"

definition Split :: "stage list \<Rightarrow> stage list \<Rightarrow> stage" where
  "Split left right = \<lparr>is_exec = False, call = Split_fn left right\<rparr>"

section \<open>Notions used to state the properties\<close>

text \<open>
  The values that \<open>replaceVar\<close> can turn into text (a string, a byte slice, a file),
  and the text it inserts for them.
\<close>

definition textual :: "val \<Rightarrow> bool" where
  "textual v = (case v of VString _ \<Rightarrow> True | VBytes _ \<Rightarrow> True | VFile _ \<Rightarrow> True | _ \<Rightarrow> False)"

definition text_of :: "val \<Rightarrow> string" where
  "text_of v = (case v of VString d \<Rightarrow> d | VBytes d \<Rightarrow> d | VFile f \<Rightarrow> fname f | _ \<Rightarrow> [])"

text \<open>
  The test of \<open>Run\<close> for a temporary file. The variables of \<open>Run\<close> and the system
  when the loop over the stages is left, and whether one of the two cleanup loops
  returned at a failed operation.
\<close>

definition is_temporary :: "osfile \<Rightarrow> bool" where
  "is_temporary f = HasPrefix (path_Base (fname f)) temporaryFilePrefix"

definition final_state :: "stage list \<Rightarrow> world \<Rightarrow> run_state" where
  "final_state stages w = fst (run_stages stages init_state w)"

definition world_after_stages :: "stage list \<Rightarrow> world \<Rightarrow> world" where
  "world_after_stages stages w = snd (run_stages stages init_state w)"

definition cleanup_failed :: "stage list \<Rightarrow> world \<Rightarrow> bool" where
  "cleanup_failed stages w =
     fst (fst (cleanup (final_state stages w) (world_after_stages stages w)))"



text \<open>
  A template cut into the text outside its placeholders and the names of its
  placeholders; the text of a template; the templates in which \<open>#\<close> is found nowhere but
  at the start of a placeholder with a name of letters. \<open>expand\<close> is the text that stands
  for a token when every placeholder is replaced by its own value at once: the ambient
  value for \<open>content\<close> or \<open>file\<close>, the value bound to the name otherwise, and the
  placeholder itself when there is none; \<open>tok_text\<close> is the same without an ambient
  value.
\<close>

datatype token = Lit string | Ph string

fun render :: "token list \<Rightarrow> string" where
  "render [] = []"
| "render (Lit s # ts) = s @ render ts"
| "render (Ph n # ts) = placeholder n @ render ts"

definition plain_template :: "token list \<Rightarrow> bool" where
  "plain_template toks =
     (\<forall>t \<in> set toks. case t of Lit s \<Rightarrow> CHR ''#'' \<notin> set s | Ph n \<Rightarrow> matches_letters n)"

definition expand :: "val \<Rightarrow> (string \<rightharpoonup> val) \<Rightarrow> token \<Rightarrow> string" where
  "expand d m t =
     (case t of
        Lit s \<Rightarrow> s
      | Ph n \<Rightarrow>
          if n = ''content'' \<and> (case d of VString _ \<Rightarrow> True | VBytes _ \<Rightarrow> True | _ \<Rightarrow> False)
          then text_of d
          else if n = ''file'' \<and> (case d of VFile _ \<Rightarrow> True | _ \<Rightarrow> False)
          then text_of d
          else (case m n of Some x \<Rightarrow> text_of x | None \<Rightarrow> placeholder n))"

definition tok_text :: "(string \<rightharpoonup> val) \<Rightarrow> token \<Rightarrow> string" where
  "tok_text m t =
     (case t of
        Lit s \<Rightarrow> s
      | Ph n \<Rightarrow> (case m n of Some x \<Rightarrow> text_of x | None \<Rightarrow> placeholder n))"

text \<open>
  For the examples: a system with no file and no open descriptor that refuses nothing,
  and a shell in which every command succeeds and prints its own text.
\<close>

definition world0 :: world where
  "world0 = \<lparr>disk = Map.empty, opened = {}, next_fd = 0, refused = {},
              cells = (\<lambda>_. []), calls = []\<rparr>"

definition echo_shell :: "string \<Rightarrow> world \<Rightarrow> proc \<times> world" where
  "echo_shell cmd w =
     (\<lparr>getwd_err = None, stdout_pipe_err = None, stderr_pipe_err = None, start_err = None,
       wait_err = None, errOut = None, errErr = None, outBuff = cmd\<rparr>, w)"

text \<open>
  A system in which the caller has opened the file \<^verbatim>\<open>/data/in\<close> with descriptor 7.
\<close>

definition world1 :: world where
  "world1 = \<lparr>disk = [''/data/in'' \<mapsto> ''abc''], opened = {7}, next_fd = 8, refused = {},
              cells = (\<lambda>_. []), calls = []\<rparr>"

text \<open>
  The variables of a run after a first stage \<open>Insert v\<close>: empty, but for what the loop
  registers for \<open>v\<close> itself.
\<close>

definition branch_state :: "val \<Rightarrow> run_state" where
  "branch_state v =
     (case v of
        VFile f \<Rightarrow> if is_temporary f then init_state\<lparr>input := v, removeTempFiles := [f]\<rparr>
                   else init_state\<lparr>input := v, closeFiles := [f]\<rparr>
      | VSave n x \<Rightarrow> init_state\<lparr>input := v, vars := [(n, x)]\<rparr>
      | _ \<Rightarrow> init_state\<lparr>input := v\<rparr>)"

section \<open>Lemmas on substitution\<close>

text \<open>
  A placeholder starts with the only \<open>#\<close> it holds, so an instance of it never reaches
  across the start of another placeholder, and \<open>Replace\<close> treats the text before
  a placeholder and the text from it on separately.
\<close>

lemma replaceVar_textual:
  "textual v \<Longrightarrow> replaceVar cmd n v = (Replace cmd (placeholder n) (text_of v), None)"
  by (cases v) (simp_all add: textual_def text_of_def replaceVar_def)

lemma replaceVar_not_textual:
  "\<not> textual v \<Longrightarrow> replaceVar cmd n v = ([], Some msg_replace)"
  by (cases v) (simp_all add: textual_def replaceVar_def)

lemma replaceVars_unsupported:
  "(n, v) \<in> set vs \<Longrightarrow> \<not> textual v \<Longrightarrow> replaceVars vs cmd = ([], Some msg_replace)"
proof (induction vs arbitrary: cmd)
  case Nil
  then show ?case by simp
next
  case (Cons kv vs)
  obtain k x where kv: "kv = (k, x)" by (cases kv)
  show ?case
  proof (cases "textual x")
    case True
    with Cons.prems kv have "(n, v) \<in> set vs" by auto
    with Cons.IH Cons.prems(2) True kv show ?thesis
      by (simp add: replaceVar_textual)
  next
    case False
    then show ?thesis using kv by (simp add: replaceVar_not_textual)
  qed
qed

lemma prefix_hash_free:
  assumes "prefix q (a @ CHR ''#'' # t)" and "CHR ''#'' \<notin> set q"
  shows "prefix q a"
  using assms
proof (induction q arbitrary: a)
  case Nil
  then show ?case by simp
next
  case (Cons c q)
  show ?case
  proof (cases a)
    case Nil
    with Cons.prems show ?thesis by simp
  next
    case (Cons x xs)
    with Cons.prems have "c = x" and "prefix q (xs @ CHR ''#'' # t)" and "CHR ''#'' \<notin> set q"
      by simp_all
    with Cons.IH [of xs] have "prefix q xs" by simp
    with \<open>c = x\<close> Cons show ?thesis by simp
  qed
qed

lemma prefix_closed_name:
  "x \<notin> set n \<Longrightarrow> x \<notin> set m \<Longrightarrow> prefix (n @ [x]) (m @ x # b) \<Longrightarrow> n = m"
proof (induction n arbitrary: m)
  case Nil
  then show ?case by (cases m) simp_all
next
  case (Cons c n)
  show ?case
  proof (cases m)
    case Nil
    with Cons.prems show ?thesis by simp
  next
    case (Cons y ys)
    with Cons.prems have "c = y" and "x \<notin> set n" and "x \<notin> set ys"
      and "prefix (n @ [x]) (ys @ x # b)" by simp_all
    with Cons.IH [of ys] have "n = ys" by simp
    with \<open>c = y\<close> Cons show ?thesis by simp
  qed
qed

lemma Replace_skip:
  "CHR ''#'' \<notin> set s \<Longrightarrow> Replace (s @ t) (CHR ''#'' # q) new = s @ Replace t (CHR ''#'' # q) new"
  by (induction s) simp_all


lemma Replace_hit:
  "Replace (((c # q) @ r)) (c # q) new = new @ Replace r (c # q) new"
  by simp

lemma Replace_miss:
  "old \<noteq> [] \<Longrightarrow> \<not> prefix old (c # cs) \<Longrightarrow> Replace (c # cs) old new = c # Replace cs old new"
  by simp

lemma Replace_split_at_hash:
  assumes q: "CHR ''#'' \<notin> set q"
  shows "Replace (a @ CHR ''#'' # t) (CHR ''#'' # q) new =
         Replace a (CHR ''#'' # q) new @ Replace (CHR ''#'' # t) (CHR ''#'' # q) new"
proof (induction a rule: length_induct)
  case (1 a)
  let ?p = "CHR ''#'' # q"
  show ?case
  proof (cases a)
    case Nil
    then show ?thesis by simp
  next
    case (Cons c cs)
    show ?thesis
    proof (cases "prefix ?p (c # cs)")
      case True
      then obtain r where r: "c # cs = ?p @ r" unfolding prefix_def by blast
      then have "length r < length a" using Cons by simp
      with 1 have ih: "Replace (r @ CHR ''#'' # t) ?p new =
          Replace r ?p new @ Replace (CHR ''#'' # t) ?p new"
        by blast
      have "Replace (a @ CHR ''#'' # t) ?p new = Replace ((?p @ (r @ CHR ''#'' # t))) ?p new"
        using Cons r by simp
      also have "\<dots> = new @ Replace (r @ CHR ''#'' # t) ?p new"
        by (rule Replace_hit)
      also have "\<dots> = (new @ Replace r ?p new) @ Replace (CHR ''#'' # t) ?p new"
        using ih by simp
      also have "new @ Replace r ?p new = Replace (?p @ r) ?p new"
        by (rule Replace_hit [symmetric])
      finally show ?thesis using Cons r by simp
    next
      case False
      have np: "\<not> prefix ?p (c # (cs @ CHR ''#'' # t))"
      proof
        assume p: "prefix ?p (c # (cs @ CHR ''#'' # t))"
        from p have pc: "CHR ''#'' = c \<and> prefix q (cs @ CHR ''#'' # t)"
          unfolding Cons_prefix_Cons .
        from pc have pq: "prefix q (cs @ CHR ''#'' # t)" by (rule conjunct2)
        have "prefix q cs" using pq q by (rule prefix_hash_free)
        with pc have "CHR ''#'' = c \<and> prefix q cs" by blast
        then have "prefix ?p (c # cs)" unfolding Cons_prefix_Cons .
        with False show False by (rule notE)
      qed
      have "length cs < length a" using Cons by simp
      with 1 have ih: "Replace (cs @ CHR ''#'' # t) ?p new =
          Replace cs ?p new @ Replace (CHR ''#'' # t) ?p new"
        by blast
      have "Replace (a @ CHR ''#'' # t) ?p new = Replace (c # (cs @ CHR ''#'' # t)) ?p new"
        using Cons by simp
      also have "\<dots> = c # Replace (cs @ CHR ''#'' # t) ?p new"
        using np by (intro Replace_miss) simp
      also have "\<dots> = (c # Replace cs ?p new) @ Replace (CHR ''#'' # t) ?p new"
        using ih by simp
      also have "c # Replace cs ?p new = Replace (c # cs) ?p new"
        using False by (intro Replace_miss [symmetric]) simp
      finally show ?thesis using Cons by simp
    qed
  qed
qed


lemma Replace_placeholder_same:
  assumes "CHR ''#'' \<notin> set n"
  shows "Replace (a @ placeholder n @ b) (placeholder n) new =
         Replace a (placeholder n) new @ new @ Replace b (placeholder n) new"
proof -
  let ?q = "CHR ''{'' # n @ ''}''"
  have "CHR ''#'' \<notin> set ?q" using assms by simp
  then have "Replace (a @ CHR ''#'' # (?q @ b)) (CHR ''#'' # ?q) new =
        Replace a (CHR ''#'' # ?q) new @ Replace (CHR ''#'' # (?q @ b)) (CHR ''#'' # ?q) new"
    by (rule Replace_split_at_hash)
  moreover have "Replace ((CHR ''#'' # ?q) @ b) (CHR ''#'' # ?q) new =
        new @ Replace b (CHR ''#'' # ?q) new"
    by (rule Replace_hit)
  ultimately show ?thesis by (simp add: placeholder_def del: Replace.simps)
qed

lemma Replace_placeholder_other:
  assumes "n \<noteq> m"
    and "CHR ''#'' \<notin> set n" and "CHR ''}'' \<notin> set n"
    and "CHR ''#'' \<notin> set m" and "CHR ''}'' \<notin> set m"
  shows "Replace (a @ placeholder m @ b) (placeholder n) new =
         Replace a (placeholder n) new @ placeholder m @ Replace b (placeholder n) new"
proof -
  let ?q = "CHR ''{'' # n @ ''}''"
  let ?r = "CHR ''{'' # m @ ''}''"
  have "CHR ''#'' \<notin> set ?q" using assms by simp
  then have split: "Replace (a @ CHR ''#'' # (?r @ b)) (CHR ''#'' # ?q) new =
        Replace a (CHR ''#'' # ?q) new @ Replace (CHR ''#'' # (?r @ b)) (CHR ''#'' # ?q) new"
    by (rule Replace_split_at_hash)
  have np: "\<not> prefix (CHR ''#'' # ?q) (CHR ''#'' # (?r @ b))"
  proof
    assume "prefix (CHR ''#'' # ?q) (CHR ''#'' # (?r @ b))"
    then have "prefix (n @ [CHR ''}'']) (m @ CHR ''}'' # b)" by simp
    with assms(3) assms(5) have "n = m" by (rule prefix_closed_name)
    with assms(1) show False by (rule notE)
  qed
  have "CHR ''#'' \<notin> set ?r" using assms by simp
  then have "Replace (?r @ b) (CHR ''#'' # ?q) new = ?r @ Replace b (CHR ''#'' # ?q) new"
    by (rule Replace_skip)
  moreover have "Replace (CHR ''#'' # (?r @ b)) (CHR ''#'' # ?q) new =
        CHR ''#'' # Replace (?r @ b) (CHR ''#'' # ?q) new"
    using np by (intro Replace_miss) simp
  ultimately show ?thesis using split by (simp add: placeholder_def del: Replace.simps)
qed

lemma letters_plain:
  assumes "matches_letters n"
  shows "CHR ''#'' \<notin> set n \<and> CHR ''}'' \<notin> set n"
proof -
  have "CHR ''#'' \<notin> set letters" and "CHR ''}'' \<notin> set letters"
    by (simp_all add: letters_def)
  moreover have "\<forall>c \<in> set n. c \<in> set letters"
    using assms unfolding matches_letters_def by (rule conjunct2)
  ultimately show ?thesis by blast
qed


lemma replaceVars_textual:
  "\<forall>(k, x) \<in> set vs. textual x \<Longrightarrow>
   replaceVars vs cmd = (foldl (\<lambda>c (k, x). Replace c (placeholder k) (text_of x)) cmd vs, None)"
proof (induction vs arbitrary: cmd)
  case Nil
  show ?case by simp
next
  case (Cons kv vs)
  obtain k x where kv: "kv = (k, x)" by (cases kv)
  with Cons.prems have "textual x" and "\<forall>(k, x) \<in> set vs. textual x" by simp_all
  with Cons.IH kv show ?case by (simp add: replaceVar_textual del: Replace.simps)
qed

lemma content_placeholder: "''#{content}'' = placeholder ''content''"
  by (simp add: placeholder_def)

lemma file_placeholder: "''#{file}'' = placeholder ''file''"
  by (simp add: placeholder_def)

lemma replaceAmbient_content:
  assumes "d = VString z \<or> d = VBytes z"
  shows "replaceAmbient (a @ ''#{content}'' @ b) d = replaceAmbient a d @ z @ replaceAmbient b d"
proof -
  have "Replace (a @ placeholder ''content'' @ b) (placeholder ''content'') z =
        Replace a (placeholder ''content'') z @ z @ Replace b (placeholder ''content'') z"
    by (rule Replace_placeholder_same) simp
  with assms show ?thesis
    unfolding replaceAmbient_def content_placeholder by auto
qed

lemma replaceAmbient_file:
  "replaceAmbient (a @ ''#{file}'' @ b) (VFile f) =
   replaceAmbient a (VFile f) @ fname f @ replaceAmbient b (VFile f)"
proof -
  have "Replace (a @ placeholder ''file'' @ b) (placeholder ''file'') (fname f) =
        Replace a (placeholder ''file'') (fname f) @ fname f @
        Replace b (placeholder ''file'') (fname f)"
    by (rule Replace_placeholder_same) simp
  then show ?thesis
    unfolding replaceAmbient_def file_placeholder by simp
qed

lemma replaceVar_same:
  assumes "textual x" and "CHR ''#'' \<notin> set k"
  shows "replaceVar (a @ placeholder k @ b) k x =
         (fst (replaceVar a k x) @ text_of x @ fst (replaceVar b k x), None)"
  using assms Replace_placeholder_same [of k a b "text_of x"]
  by (simp add: replaceVar_textual del: Replace.simps)

lemma replaceAmbient_other:
  assumes "matches_letters m" and "m \<noteq> ''content''" and "m \<noteq> ''file''"
  shows "replaceAmbient (a @ placeholder m @ b) d =
         replaceAmbient a d @ placeholder m @ replaceAmbient b d"
proof -
  have m: "CHR ''#'' \<notin> set m" "CHR ''}'' \<notin> set m"
    using letters_plain [OF assms(1)] by simp_all
  have c: "\<And>new. Replace (a @ placeholder m @ b) (placeholder ''content'') new =
        Replace a (placeholder ''content'') new @ placeholder m @
        Replace b (placeholder ''content'') new"
    using assms(2) m by (intro Replace_placeholder_other) simp_all
  have f: "\<And>new. Replace (a @ placeholder m @ b) (placeholder ''file'') new =
        Replace a (placeholder ''file'') new @ placeholder m @
        Replace b (placeholder ''file'') new"
    using assms(3) m by (intro Replace_placeholder_other) simp_all
  show ?thesis
    unfolding replaceAmbient_def content_placeholder file_placeholder
    by (cases d) (simp_all add: c f del: Replace.simps)
qed

lemma replaceVars_other:
  assumes "\<forall>(k, x) \<in> set vs. textual x \<and> matches_letters k \<and> k \<noteq> m"
    and "matches_letters m"
  shows "fst (replaceVars vs (a @ placeholder m @ b)) =
         fst (replaceVars vs a) @ placeholder m @ fst (replaceVars vs b)"
  using assms(1)
proof (induction vs arbitrary: a b)
  case Nil
  show ?case by simp
next
  case (Cons kv vs)
  obtain k x where kv: "kv = (k, x)" by (cases kv)
  with Cons.prems have x: "textual x" and k: "matches_letters k" "k \<noteq> m"
    and rest: "\<forall>(k, x) \<in> set vs. textual x \<and> matches_letters k \<and> k \<noteq> m"
    by simp_all
  have "Replace (a @ placeholder m @ b) (placeholder k) (text_of x) =
        Replace a (placeholder k) (text_of x) @ placeholder m @
        Replace b (placeholder k) (text_of x)"
    using k letters_plain [OF k(1)] letters_plain [OF assms(2)]
    by (intro Replace_placeholder_other) simp_all
  with Cons.IH [OF rest] kv x show ?case
    by (simp add: replaceVar_textual del: Replace.simps)
qed

text \<open>
  The substitution of \<open>Exec\<close> as the chain of replacements of the source, with the laws
  of one replacement: every occurrence of the placeholder of the step is replaced, and a
  placeholder of another name is passed over.
\<close>

lemma Exec_resolve_chain:
  "\<forall>(k, x) \<in> set vs. textual x \<Longrightarrow>
   Exec_resolve cmd (VInterceptExec d vs) =
     (foldl (\<lambda>c (k, x). Replace c (placeholder k) (text_of x)) (replaceAmbient cmd d) vs, None) \<and>
   (\<forall>z a b. d = VString z \<or> d = VBytes z \<longrightarrow>
      replaceAmbient (a @ ''#{content}'' @ b) d = replaceAmbient a d @ z @ replaceAmbient b d) \<and>
   (\<forall>f a b. d = VFile f \<longrightarrow>
      replaceAmbient (a @ ''#{file}'' @ b) d = replaceAmbient a d @ fname f @ replaceAmbient b d) \<and>
   (\<forall>k x a b. textual x \<and> matches_letters k \<longrightarrow>
      replaceVar (a @ placeholder k @ b) k x =
        (fst (replaceVar a k x) @ text_of x @ fst (replaceVar b k x), None)) \<and>
   (\<forall>m a b. matches_letters m \<and> m \<noteq> ''content'' \<and> m \<noteq> ''file'' \<and>
        (\<forall>(k, x) \<in> set vs. matches_letters k \<and> k \<noteq> m) \<longrightarrow>
      fst (Exec_resolve (a @ placeholder m @ b) (VInterceptExec d vs)) =
        fst (Exec_resolve a (VInterceptExec d vs)) @ placeholder m @
        fst (Exec_resolve b (VInterceptExec d vs)))"
proof (intro conjI allI impI)
  assume t: "\<forall>(k, x) \<in> set vs. textual x"
  then show "Exec_resolve cmd (VInterceptExec d vs) =
     (foldl (\<lambda>c (k, x). Replace c (placeholder k) (text_of x)) (replaceAmbient cmd d) vs, None)"
    by (simp add: Exec_resolve_def replaceVars_textual)
next
  fix z a b
  assume "d = VString z \<or> d = VBytes z"
  then show "replaceAmbient (a @ ''#{content}'' @ b) d = replaceAmbient a d @ z @ replaceAmbient b d"
    by (rule replaceAmbient_content)
next
  fix f a b
  assume d: "d = VFile f"
  show "replaceAmbient (a @ ''#{file}'' @ b) d =
      replaceAmbient a d @ fname f @ replaceAmbient b d"
    unfolding d by (rule replaceAmbient_file)
next
  fix k x a b
  assume "textual x \<and> matches_letters k"
  then show "replaceVar (a @ placeholder k @ b) k x =
        (fst (replaceVar a k x) @ text_of x @ fst (replaceVar b k x), None)"
    using letters_plain [of k] by (intro replaceVar_same) simp_all
next
  fix m a b
  assume t: "\<forall>(k, x) \<in> set vs. textual x"
  assume h: "matches_letters m \<and> m \<noteq> ''content'' \<and> m \<noteq> ''file'' \<and>
        (\<forall>(k, x) \<in> set vs. matches_letters k \<and> k \<noteq> m)"
  from t h have all: "\<forall>(k, x) \<in> set vs. textual x \<and> matches_letters k \<and> k \<noteq> m"
    by fastforce
  from h have m: "matches_letters m" "m \<noteq> ''content''" "m \<noteq> ''file''" by simp_all
  show "fst (Exec_resolve (a @ placeholder m @ b) (VInterceptExec d vs)) =
        fst (Exec_resolve a (VInterceptExec d vs)) @ placeholder m @
        fst (Exec_resolve b (VInterceptExec d vs))"
    unfolding Exec_resolve_def val.case replaceAmbient_other [OF m]
    by (rule replaceVars_other [OF all m(1)])
qed

text \<open>One replacement, and then the whole substitution, on a template cut into tokens.\<close>

lemma Replace_render:
  assumes "plain_template toks" and "matches_letters n"
  shows "Replace (render toks) (placeholder n) r =
         render (map (\<lambda>t. if t = Ph n then Lit r else t) toks)"
  using assms(1)
proof (induction toks)
  case Nil
  show ?case by (simp add: placeholder_def)
next
  case (Cons t toks)
  from Cons.prems have rest: "plain_template toks" by (simp add: plain_template_def)
  note ih = Cons.IH [OF rest]
  note n = letters_plain [OF assms(2)]
  show ?case
  proof (cases t)
    case (Lit s)
    with Cons.prems have "CHR ''#'' \<notin> set s" by (simp add: plain_template_def)
    then have "Replace (s @ render toks) (CHR ''#'' # (CHR ''{'' # n @ ''}'')) r =
        s @ Replace (render toks) (CHR ''#'' # (CHR ''{'' # n @ ''}'')) r"
      by (rule Replace_skip)
    then have "Replace (s @ render toks) (placeholder n) r =
        s @ Replace (render toks) (placeholder n) r"
      by (simp add: placeholder_def del: Replace.simps)
    with ih Lit show ?thesis by (simp del: Replace.simps)
  next
    case (Ph m)
    with Cons.prems have "matches_letters m" by (simp add: plain_template_def)
    note m = letters_plain [OF this]
    show ?thesis
    proof (cases "m = n")
      case True
      have "Replace ([] @ placeholder n @ render toks) (placeholder n) r =
          Replace [] (placeholder n) r @ r @ Replace (render toks) (placeholder n) r"
        using n by (intro Replace_placeholder_same) simp
      moreover have "Replace [] (placeholder n) r = []" by (simp add: placeholder_def)
      ultimately show ?thesis using ih Ph True by (simp del: Replace.simps)
    next
      case False
      have "Replace ([] @ placeholder m @ render toks) (placeholder n) r =
          Replace [] (placeholder n) r @ placeholder m @ Replace (render toks) (placeholder n) r"
        using False n m by (intro Replace_placeholder_other) simp_all
      moreover have "Replace [] (placeholder n) r = []" by (simp add: placeholder_def)
      ultimately show ?thesis using ih Ph False by (simp del: Replace.simps)
    qed
  qed
qed

lemma plain_template_subst:
  "plain_template toks \<Longrightarrow> CHR ''#'' \<notin> set r \<Longrightarrow>
   plain_template (map (\<lambda>t. if t = Ph n then Lit r else t) toks)"
  by (auto simp add: plain_template_def)

lemma render_tok_text: "render toks = concat (map (tok_text Map.empty) toks)"
proof (induction toks)
  case Nil
  show ?case by simp
next
  case (Cons t toks)
  then show ?case by (cases t) (simp_all add: tok_text_def)
qed

lemma tok_text_subst:
  "tok_text (map_of vs) (if t = Ph k then Lit (text_of x) else t) = tok_text (map_of ((k, x) # vs)) t"
  by (cases t) (simp_all add: tok_text_def)

lemma replaceVars_render:
  assumes "\<forall>(k, x) \<in> set vs. matches_letters k \<and> textual x \<and> CHR ''#'' \<notin> set (text_of x)"
    and "plain_template toks"
  shows "replaceVars vs (render toks) = (concat (map (tok_text (map_of vs)) toks), None)"
  using assms
proof (induction vs arbitrary: toks)
  case Nil
  show ?case by (simp add: render_tok_text)
next
  case (Cons kv vs)
  obtain k x where kv: "kv = (k, x)" by (cases kv)
  with Cons.prems(1) have k: "matches_letters k" and x: "textual x"
    and tx: "CHR ''#'' \<notin> set (text_of x)"
    and rest: "\<forall>(k, x) \<in> set vs. matches_letters k \<and> textual x \<and> CHR ''#'' \<notin> set (text_of x)"
    by simp_all
  let ?toks = "map (\<lambda>t. if t = Ph k then Lit (text_of x) else t) toks"
  have step: "replaceVar (render toks) k x = (render ?toks, None)"
    using Replace_render [OF Cons.prems(2) k] x by (simp add: replaceVar_textual del: Replace.simps)
  have plain: "plain_template ?toks" using Cons.prems(2) tx by (rule plain_template_subst)
  have "replaceVars (kv # vs) (render toks) = replaceVars vs (render ?toks)"
    using step kv by simp
  also have "\<dots> = (concat (map (tok_text (map_of vs)) ?toks), None)"
    using rest plain by (rule Cons.IH)
  also have "map (tok_text (map_of vs)) ?toks = map (tok_text (map_of (kv # vs))) toks"
    unfolding kv by (simp add: tok_text_subst del: map_of.simps)
  finally show ?case .
qed

lemma expand_content:
  "d = VString z \<or> d = VBytes z \<Longrightarrow>
   tok_text m (if t = Ph ''content'' then Lit z else t) = expand d m t"
  by (cases t) (auto simp add: tok_text_def expand_def text_of_def)

lemma expand_file:
  "tok_text m (if t = Ph ''file'' then Lit (fname g) else t) = expand (VFile g) m t"
  by (cases t) (auto simp add: tok_text_def expand_def text_of_def)

lemma expand_other:
  "\<not> textual d \<Longrightarrow> tok_text m t = expand d m t"
  by (cases t; cases d) (simp_all add: tok_text_def expand_def textual_def)

lemma replaceAmbient_render:
  assumes "plain_template toks" and "CHR ''#'' \<notin> set (text_of d)"
  shows "\<exists>toks'. replaceAmbient (render toks) d = render toks' \<and> plain_template toks' \<and>
     (\<forall>m. map (tok_text m) toks' = map (expand d m) toks)"
proof -
  let ?G = ?thesis
  have c: "matches_letters ''content''" and f: "matches_letters ''file''"
    by (simp_all add: matches_letters_def letters_def)
  have content: "\<And>z. CHR ''#'' \<notin> set z \<Longrightarrow> d = VString z \<or> d = VBytes z \<Longrightarrow> ?G"
  proof -
    fix z assume z: "CHR ''#'' \<notin> set z" and d: "d = VString z \<or> d = VBytes z"
    let ?toks = "map (\<lambda>t. if t = Ph ''content'' then Lit z else t) toks"
    have "Replace (render toks) ''#{content}'' z = render ?toks"
      unfolding content_placeholder by (rule Replace_render [OF assms(1) c])
    with d have "replaceAmbient (render toks) d = render ?toks"
      by (auto simp add: replaceAmbient_def simp del: Replace.simps)
    moreover have "plain_template ?toks"
      using assms(1) z by (rule plain_template_subst)
    moreover have "\<forall>m. map (tok_text m) ?toks = map (expand d m) toks"
      using expand_content [OF d] by simp
    ultimately show ?G by blast
  qed
  show ?thesis
  proof (cases "textual d")
    case False
    then have "replaceAmbient (render toks) d = render toks"
      by (cases d) (simp_all add: replaceAmbient_def textual_def)
    moreover have "\<forall>m. map (tok_text m) toks = map (expand d m) toks"
      using expand_other [OF False] by simp
    ultimately show ?thesis using assms(1) by blast
  next
    case True
    show ?thesis
    proof (cases d)
      case (VString z)
      with assms(2) show ?thesis by (intro content [of z]) (simp_all add: text_of_def)
    next
      case (VBytes z)
      with assms(2) show ?thesis by (intro content [of z]) (simp_all add: text_of_def)
    next
      case (VFile g)
      let ?toks = "map (\<lambda>t. if t = Ph ''file'' then Lit (fname g) else t) toks"
      have "Replace (render toks) ''#{file}'' (fname g) = render ?toks"
        unfolding file_placeholder by (rule Replace_render [OF assms(1) f])
      with VFile have "replaceAmbient (render toks) d = render ?toks"
        by (simp add: replaceAmbient_def del: Replace.simps)
      moreover have "plain_template ?toks"
        using assms VFile by (intro plain_template_subst) (simp_all add: text_of_def)
      moreover have "\<forall>m. map (tok_text m) ?toks = map (expand d m) toks"
        unfolding VFile by (simp add: expand_file)
      ultimately show ?thesis by blast
    qed (use True in \<open>simp_all add: textual_def\<close>)
  qed
qed

section \<open>Lemmas on Run\<close>

lemma run_step_flag:
  "run_step st s w = (b, s1, w1) \<Longrightarrow> b = (err s1 = None)"
  by (auto simp add: run_step_def Let_def split: prod.splits val.splits if_splits)

lemma run_stages_append:
  "err s = None \<Longrightarrow>
   run_stages (pre @ post) s w =
     (case run_stages pre s w of
        (s1, w1) \<Rightarrow> if err s1 = None then run_stages post s1 w1 else (s1, w1))"
proof (induction pre arbitrary: s w)
  case Nil
  then show ?case by simp
next
  case (Cons st pre)
  obtain b s1 w1 where step: "run_step st s w = (b, s1, w1)" by (cases "run_step st s w")
  then have b: "b = (err s1 = None)" by (rule run_step_flag)
  show ?case
  proof (cases b)
    case True
    with b have "err s1 = None" by simp
    with Cons.IH [of s1 w1] step True show ?thesis by simp
  next
    case False
    with b step show ?thesis by auto
  qed
qed

lemma os_Close_ok:
  "os_Close f w = (None, w1) \<Longrightarrow>
   fd f \<in> opened w \<and> w1 = w\<lparr>calls := calls w @ [SysClose (fd f)], opened := opened w - {fd f}\<rparr>"
  by (auto simp add: os_Close_def Let_def split: if_splits)

lemma os_Remove_ok:
  "os_Remove name w = (None, w1) \<Longrightarrow>
   disk w name \<noteq> None \<and>
   w1 = w\<lparr>calls := calls w @ [SysRemove name], disk := (disk w)(name := None)\<rparr>"
  by (auto simp add: os_Remove_def Let_def split: if_splits)

lemma close_loop_ok:
  "close_loop fs e w = ((False, e1), w1) \<Longrightarrow>
   calls w1 = calls w @ map (\<lambda>f. SysClose (fd f)) fs \<and>
   opened w1 = opened w - fd ` set fs \<and> fd ` set fs \<subseteq> opened w \<and>
   disk w1 = disk w \<and> distinct (map fd fs) \<and>
   e1 = (if fs = [] then e else None)"
proof (induction fs arbitrary: e w)
  case Nil
  then show ?case by simp
next
  case (Cons f fs)
  from Cons.prems obtain w2 where c: "os_Close f w = (None, w2)"
    and rest: "close_loop fs None w2 = ((False, e1), w1)"
    by (auto split: prod.splits option.splits)
  from c have f: "fd f \<in> opened w"
    and w2: "w2 = w\<lparr>calls := calls w @ [SysClose (fd f)], opened := opened w - {fd f}\<rparr>"
    using os_Close_ok by blast+
  from Cons.IH [OF rest] w2 f show ?case by auto
qed

lemma remove_loop_ok:
  "remove_loop fs e w = ((False, e1), w1) \<Longrightarrow>
   calls w1 = calls w @ map (\<lambda>f. SysRemove (fname f)) fs \<and>
   opened w1 = opened w \<and> fname ` set fs \<subseteq> dom (disk w) \<and>
   disk w1 = (\<lambda>p. if p \<in> fname ` set fs then None else disk w p) \<and>
   distinct (map fname fs) \<and>
   e1 = (if fs = [] then e else None)"
proof (induction fs arbitrary: e w)
  case Nil
  then show ?case by simp
next
  case (Cons f fs)
  from Cons.prems obtain w2 where c: "os_Remove (fname f) w = (None, w2)"
    and rest: "remove_loop fs None w2 = ((False, e1), w1)"
    by (auto split: prod.splits option.splits)
  from c have f: "disk w (fname f) \<noteq> None"
    and w2: "w2 = w\<lparr>calls := calls w @ [SysRemove (fname f)],
                     disk := (disk w)(fname f := None)\<rparr>"
    using os_Remove_ok by blast+
  have d2: "disk w2 = (disk w)(fname f := None)" and o2: "opened w2 = opened w"
    and c2: "calls w2 = calls w @ [SysRemove (fname f)]"
    using w2 by simp_all
  from Cons.IH [OF rest]
  have ih: "calls w1 = calls w2 @ map (\<lambda>f. SysRemove (fname f)) fs"
    "opened w1 = opened w2" "fname ` set fs \<subseteq> dom (disk w2)"
    "disk w1 = (\<lambda>p. if p \<in> fname ` set fs then None else disk w2 p)"
    "distinct (map fname fs)" "e1 = (if fs = [] then None else None)"
    by simp_all
  have dom2: "dom (disk w2) = dom (disk w) - {fname f}" unfolding d2 by auto
  from ih(3) dom2 have notin: "fname f \<notin> fname ` set fs"
    and sub: "fname ` set fs \<subseteq> dom (disk w)" by auto
  have "fname ` set (f # fs) \<subseteq> dom (disk w)" using sub f by auto
  moreover have "disk w1 = (\<lambda>p. if p \<in> fname ` set (f # fs) then None else disk w p)"
    unfolding ih(4) d2 by (auto simp add: fun_eq_iff)
  moreover have "distinct (map fname (f # fs))" using notin ih(5) by simp
  moreover have "calls w1 = calls w @ map (\<lambda>f. SysRemove (fname f)) (f # fs)"
    unfolding ih(1) c2 by simp
  moreover have "opened w1 = opened w" unfolding ih(2) o2 ..
  moreover have "e1 = (if f # fs = [] then e else None)" using ih(6) by simp
  ultimately show ?case by blast
qed


lemma run_step_failed:
  "call st (stage_arg st s) w = ((out, Some x), w1) \<Longrightarrow>
   run_step st s w = (False, s\<lparr>input := out, err := Some x\<rparr>, w1)"
  by (simp add: run_step_def)

lemma run_step_file:
  "call st (stage_arg st s) w = ((VFile f, None), w1) \<Longrightarrow>
   run_step st s w =
     (True,
      if is_temporary f
      then s\<lparr>input := VFile f, err := None, removeTempFiles := removeTempFiles s @ [f]\<rparr>
      else s\<lparr>input := VFile f, err := None, closeFiles := closeFiles s @ [f]\<rparr>, w1)"
  by (simp add: run_step_def is_temporary_def)

lemma run_step_save:
  "call st (stage_arg st s) w = ((VSave n v, None), w1) \<Longrightarrow>
   run_step st s w =
     (if n \<in> set (map fst (vars s))
      then (False, s\<lparr>input := VSave n v, err := Some (msg_duplicate n)\<rparr>, w1)
      else (True, s\<lparr>input := VSave n v, err := None, vars := vars s @ [(n, v)]\<rparr>, w1))"
  by (simp add: run_step_def)

lemma run_step_plain:
  "call st (stage_arg st s) w = ((out, None), w1) \<Longrightarrow>
   (\<forall>f. out \<noteq> VFile f) \<Longrightarrow> (\<forall>n v. out \<noteq> VSave n v) \<Longrightarrow>
   run_step st s w = (True, s\<lparr>input := out, err := None\<rparr>, w1)"
  by (cases out) (simp_all add: run_step_def)




lemma cleanup_ok:
  assumes "cleanup s w = ((False, e), w2)"
  shows "calls w2 = calls w @ map (\<lambda>f. SysClose (fd f)) (closeFiles s) @
           map (\<lambda>f. SysRemove (fname f)) (removeTempFiles s)"
    and "distinct (map fd (closeFiles s))"
    and "distinct (map fname (removeTempFiles s))"
    and "\<forall>f \<in> set (removeTempFiles s). disk w2 (fname f) = None"
    and "\<forall>f \<in> set (closeFiles s). fd f \<notin> opened w2"
    and "e = (if closeFiles s = [] \<and> removeTempFiles s = [] then err s else None)"
proof -
  from assms obtain e1 w1 where c: "close_loop (closeFiles s) (err s) w = ((False, e1), w1)"
    and r: "remove_loop (removeTempFiles s) e1 w1 = ((False, e), w2)"
    by (auto simp add: cleanup_def split: prod.splits bool.splits)
  note cl = close_loop_ok [OF c] and rl = remove_loop_ok [OF r]
  show "calls w2 = calls w @ map (\<lambda>f. SysClose (fd f)) (closeFiles s) @
           map (\<lambda>f. SysRemove (fname f)) (removeTempFiles s)"
    using cl rl by simp
  show "distinct (map fd (closeFiles s))" using cl by simp
  show "distinct (map fname (removeTempFiles s))" using rl by simp
  show "\<forall>f \<in> set (removeTempFiles s). disk w2 (fname f) = None" using rl by simp
  show "\<forall>f \<in> set (closeFiles s). fd f \<notin> opened w2" using cl rl by auto
  show "e = (if closeFiles s = [] \<and> removeTempFiles s = [] then err s else None)"
    using cl rl by auto
qed

lemma cleanup_failure:
  "cleanup s w = ((True, e), w2) \<Longrightarrow> e \<noteq> None"
proof -
  have cl: "\<And>fs e w e1 w1. close_loop fs e w = ((True, e1), w1) \<Longrightarrow> e1 \<noteq> None"
  proof -
    fix fs e w e1 w1
    show "close_loop fs e w = ((True, e1), w1) \<Longrightarrow> e1 \<noteq> None"
      by (induction fs arbitrary: e w) (auto split: prod.splits option.splits)
  qed
  have rl: "\<And>fs e w e1 w1. remove_loop fs e w = ((True, e1), w1) \<Longrightarrow> e1 \<noteq> None"
  proof -
    fix fs e w e1 w1
    show "remove_loop fs e w = ((True, e1), w1) \<Longrightarrow> e1 \<noteq> None"
      by (induction fs arbitrary: e w) (auto split: prod.splits option.splits)
  qed
  assume "cleanup s w = ((True, e), w2)"
  then show ?thesis
    using cl rl by (auto simp add: cleanup_def split: prod.splits bool.splits)
qed


lemma Run_result:
  "fst (Run stages w) =
     (input (final_state stages w),
      if cleanup_failed stages w
      then snd (fst (cleanup (final_state stages w) (world_after_stages stages w)))
      else if closeFiles (final_state stages w) = [] \<and> removeTempFiles (final_state stages w) = []
           then err (final_state stages w) else None)"
proof -
  obtain s w1 where r: "run_stages stages init_state w = (s, w1)" by (metis surj_pair)
  obtain b e w2 where c: "cleanup s w1 = ((b, e), w2)" by (metis surj_pair)
  show ?thesis
  proof (cases b)
    case True
    with r c show ?thesis
      by (simp add: Run_def final_state_def world_after_stages_def cleanup_failed_def)
  next
    case False
    with c have c': "cleanup s w1 = ((False, e), w2)" by simp
    have "e = (if closeFiles s = [] \<and> removeTempFiles s = [] then err s else None)"
      by (rule cleanup_ok(6) [OF c'])
    with r c False show ?thesis
      by (simp add: Run_def final_state_def world_after_stages_def cleanup_failed_def)
  qed
qed

lemma SaveInVar_call:
  "matches_letters n \<and> n \<noteq> ''content'' \<and> n \<noteq> ''file'' \<Longrightarrow>
   call (SaveInVar n) v w = ((VSave n v, None), w)"
  by (simp add: SaveInVar_def)

lemma SaveInVar_not_exec: "stage_arg (SaveInVar n) s = input s"
  by (simp add: SaveInVar_def stage_arg_def)

lemma Run_value: "fst (fst (Run stages w)) = input (final_state stages w)"
  by (simp add: Run_def final_state_def split: prod.splits)

lemma run_step_keeps_binding:
  assumes step: "run_step st s w = (b, s1, w1)" and n: "n \<in> set (map fst (vars s))"
  shows "n \<in> set (map fst (vars s1)) \<and> map_of (vars s1) n = map_of (vars s) n"
proof -
  obtain out e w2 where c: "call st (stage_arg st s) w = ((out, e), w2)" by (metis surj_pair)
  have "vars s1 = vars s \<or> (\<exists>k v. vars s1 = vars s @ [(k, v)])"
  proof (cases e)
    case (Some x)
    with c step show ?thesis using run_step_failed [of st s w out x w2] by auto
  next
    case None
    note c' = c [unfolded None]
    show ?thesis
    proof (cases "(\<exists>f. out = VFile f) \<or> (\<exists>k v. out = VSave k v)")
      case True
      then show ?thesis
      proof (elim disjE exE)
        fix f assume "out = VFile f"
        with c' step show ?thesis using run_step_file [of st s w f w2]
          by (auto split: if_splits)
      next
        fix k v assume "out = VSave k v"
        with c' step show ?thesis using run_step_save [of st s w k v w2]
          by (auto split: if_splits)
      qed
    next
      case False
      with run_step_plain [OF c'] step show ?thesis by auto
    qed
  qed
  then show ?thesis
  proof
    assume "vars s1 = vars s"
    with n show ?thesis by simp
  next
    assume "\<exists>k v. vars s1 = vars s @ [(k, v)]"
    then obtain k v where v: "vars s1 = vars s @ [(k, v)]" by blast
    from n obtain y where "map_of (vars s) n = Some y"
      by (metis map_of_eq_None_iff not_Some_eq set_map)
    then have "map_of (vars s @ [(k, v)]) n = map_of (vars s) n"
      by (simp add: map_add_def)
    with v n show ?thesis by simp
  qed
qed

lemma run_stages_keeps_binding:
  "n \<in> set (map fst (vars s)) \<Longrightarrow>
   map_of (vars (fst (run_stages stages s w))) n = map_of (vars s) n"
proof (induction stages arbitrary: s w)
  case Nil
  show ?case by simp
next
  case (Cons st rest)
  obtain b s1 w1 where step: "run_step st s w = (b, s1, w1)" by (metis surj_pair)
  note keep = run_step_keeps_binding [OF step Cons.prems]
  show ?case
  proof (cases b)
    case True
    with step have "run_stages (st # rest) s w = run_stages rest s1 w1" by simp
    with Cons.IH [of s1 w1] keep show ?thesis by simp
  next
    case False
    with step have "run_stages (st # rest) s w = (s1, w1)" by simp
    with keep show ?thesis by simp
  qed
qed

lemma Insert_step: "run_step (Insert v) init_state w = (True, branch_state v, w)"
  by (cases v)
    (simp_all add: run_step_def Insert_def stage_arg_def branch_state_def init_state_def
      is_temporary_def)

lemma Run_Insert:
  "Run (Insert v # stages) w =
     (case run_stages stages (branch_state v) w of
        (s1, w1) \<Rightarrow> (case cleanup s1 w1 of ((b, e), w2) \<Rightarrow> ((input s1, e), w2)))"
  by (simp add: Run_def Insert_step)






lemma run_stages_duplicate:
  "n \<in> set (map fst (vars s)) \<Longrightarrow>
   (call st (stage_arg st s) w = ((VSave n v, None), w1) \<longrightarrow>
      run_stages (st # rest) s w =
        (s\<lparr>input := VSave n v, err := Some (msg_duplicate n)\<rparr>, w1)) \<and>
   (matches_letters n \<and> n \<noteq> ''content'' \<and> n \<noteq> ''file'' \<longrightarrow>
      run_stages (SaveInVar n # rest) s w =
        (s\<lparr>input := VSave n (input s), err := Some (msg_duplicate n)\<rparr>, w)) \<and>
   map_of (vars (fst (run_stages stages s w))) n = map_of (vars s) n"
proof (intro conjI impI)
  assume n: "n \<in> set (map fst (vars s))"
  {
    assume c: "call st (stage_arg st s) w = ((VSave n v, None), w1)"
    show "run_stages (st # rest) s w =
        (s\<lparr>input := VSave n v, err := Some (msg_duplicate n)\<rparr>, w1)"
      using run_step_save [OF c] n by simp
  }
  {
    assume ok: "matches_letters n \<and> n \<noteq> ''content'' \<and> n \<noteq> ''file''"
    then have c: "call (SaveInVar n) (stage_arg (SaveInVar n) s) w = ((VSave n (input s), None), w)"
      by (simp add: SaveInVar_call SaveInVar_not_exec)
    show "run_stages (SaveInVar n # rest) s w =
        (s\<lparr>input := VSave n (input s), err := Some (msg_duplicate n)\<rparr>, w)"
      using run_step_save [OF c] n by simp
  }
  show "map_of (vars (fst (run_stages stages s w))) n = map_of (vars s) n"
    using n by (rule run_stages_keeps_binding)
qed

text \<open>The definitions that the examples unfold.\<close>

lemmas eval_defs = final_state_def world_after_stages_def cleanup_failed_def world0_def world1_def
  Run_def run_step_def Insert_def WriteTempFile_def WriteTempFile_fn_def stage_arg_def
  init_state_def SaveInVar_def matches_letters_def letters_def ioutil_TempFile_def
  file_Write_def os_Close_def os_Remove_def cleanup_def decimal.simps path_Base_def
  temporaryFilePrefix_def HasPrefix_def Let_def Split_def Split_fn_def is_temporary_def

section \<open>Tests of the package, on the model\<close>

text \<open>
  Four cases of \<open>TestRun\<close>: \<^verbatim>\<open>exclude\<close> (on the output of the command of the test),
  \<^verbatim>\<open>exclude string\<close>, \<^verbatim>\<open>save/exec\<close> (the command that is run) and
  \<^verbatim>\<open>duplicate var\<close>.
\<close>

lemma test_exclude:
  "fst (Run [Insert (VBytes (''hi'' @ [CHR 0x0A] @ ''there and here'' @ [CHR 0x0A] @ ''you'' @
        [CHR 0x0A])), ExcludeLines [CHR 0x0A] [''hi'', ''there'']] world0) =
     (VString (''you'' @ [CHR 0x0A]), None)"
  by (simp add: eval_defs ExcludeLines_def ExcludeLines_fn_def Split_str_def)

lemma test_exclude_string:
  "fst (Run [Insert (VString ''hello everyone''), ExcludeLines [CHR 0x0A] [''every'']] world0) =
     (VString [], None)"
  by (simp add: eval_defs ExcludeLines_def ExcludeLines_fn_def Split_str_def)

lemma test_save_exec:
  "fst (Run [Insert (VString ''hello''), SaveInVar ''myVar'', Insert VNil, Exec echo_shell id 0]
        (world0\<lparr>cells := (cells world0)(0 := ''echo -n #{myVar}'')\<rparr>)) =
     (VBytes ''echo -n hello'', None)"
  by (simp add: eval_defs Exec_def Exec_fn_def Exec_resolve_def replaceAmbient_def replaceVar_def
      placeholder_def echo_shell_def doExecute_def)

lemma test_duplicate_var:
  "fst (Run [Insert (VString ''hello''), SaveInVar ''myVar'', SaveInVar ''myVar''] world0) =
     (VSave ''myVar'' (VSave ''myVar'' (VString ''hello'')),
      Some ''variable: myVar already exists'')"
  by (simp add: eval_defs msg_duplicate_def)

section \<open>The error that Run returns\<close>

text \<open>
  Claim C1. When a cleanup operation fails, its error is the error of \<open>Run\<close>; when none
  fails, \<open>Run\<close> is to return the error of the stages unchanged. Both cleanup loops assign
  the result of every operation to \<open>err\<close>, also the nil of one that succeeds (lemma
  \<open>Run_result\<close>): with a file to release and no failure in the cleanup, the error of the
  stages is lost. Here \<open>SaveInVar\<close> rejects the name \<^verbatim>\<open>1bad\<close> after \<open>WriteTempFile\<close> has
  returned a file; the loop ends with that error, the file is removed, and \<open>Run\<close> returns
  nil and a nil error.
\<close>

theorem Run_discards_stage_error:
  "err (final_state [Insert (VString ''x''), WriteTempFile, SaveInVar ''1bad''] world0) =
     Some msg_invalid_name \<and>
   removeTempFiles (final_state [Insert (VString ''x''), WriteTempFile, SaveInVar ''1bad''] world0) =
     [OsFile ''/tmp/godo-temporary-file0'' 0] \<and>
   \<not> cleanup_failed [Insert (VString ''x''), WriteTempFile, SaveInVar ''1bad''] world0 \<and>
   fst (Run [Insert (VString ''x''), WriteTempFile, SaveInVar ''1bad''] world0) = (VNil, None)"
  by (simp add: final_state_def world_after_stages_def cleanup_failed_def world0_def Run_def
      run_step_def Insert_def WriteTempFile_def WriteTempFile_fn_def stage_arg_def init_state_def
      SaveInVar_def matches_letters_def letters_def ioutil_TempFile_def file_Write_def
      os_Close_def os_Remove_def cleanup_def decimal.simps path_Base_def temporaryFilePrefix_def
      HasPrefix_def Let_def)

section \<open>Registration and release of files\<close>




section \<open>Substitution\<close>

text \<open>
  Claim C3, as stated: for every template, every ambient value and every variable store
  with values that are strings, byte slices or files, each placeholder is replaced by
  its own value and the other placeholders stay. \<open>Exec\<close> makes one replacement after the
  other, on the text the one before has left, in the order the range over the map yields
  the entries. With \<open>a\<close> bound to \<^verbatim>\<open>#{b}\<close> and \<open>b\<close> to \<open>Q\<close>, the template
  \<^verbatim>\<open>v#{a}\<close> becomes \<open>vQ\<close> when \<open>a\<close> comes first and \<^verbatim>\<open>v#{b}\<close> when \<open>b\<close> does:
  never the text bound to \<open>a\<close> in the first order, and two results for one store. With
  the ambient text \<^verbatim>\<open>#{a}\<close> and \<open>a\<close> bound to \<open>X\<close>, \<^verbatim>\<open>#{content}\<close> becomes \<open>X\<close>.
  With values of letters only, \<open>n\<close> bound to \<open>y\<close> and \<open>xy\<close> to \<open>Q\<close>, the template
  \<^verbatim>\<open>#{x#{n}}\<close> becomes \<open>Q\<close> in one order and \<^verbatim>\<open>#{xy}\<close> in the other.
\<close>

theorem Exec_substitution_chained:
  "Exec_resolve ''v#{a}'' (VInterceptExec VNil [(''a'', VString ''#{b}''), (''b'', VString ''Q'')]) =
     (''vQ'', None) \<and>
   Exec_resolve ''v#{a}'' (VInterceptExec VNil [(''b'', VString ''Q''), (''a'', VString ''#{b}'')]) =
     (''v#{b}'', None) \<and>
   Exec_resolve ''#{content}'' (VInterceptExec (VString ''#{a}'') [(''a'', VString ''X'')]) =
     (''X'', None) \<and>
   Exec_resolve ''#{x#{n}}'' (VInterceptExec VNil [(''n'', VString ''y''), (''xy'', VString ''Q'')]) =
     (''Q'', None) \<and>
   Exec_resolve ''#{x#{n}}'' (VInterceptExec VNil [(''xy'', VString ''Q''), (''n'', VString ''y'')]) =
     (''#{xy}'', None)"
  by (simp add: Exec_resolve_def replaceAmbient_def replaceVar_def placeholder_def)

text \<open>
  Claim C3, amended. For every template in which \<open>#\<close> occurs only as the first
  character of a placeholder with a name of letters, every variable store whose names
  are made of letters and whose values are strings, byte slices or files with a text free
  of \<open>#\<close>, and every ambient value whose text (of a string or byte slice, the name of a
  file) is free of \<open>#\<close>: the substitution of \<open>Exec\<close> succeeds, and its result is the
  template with every \<^verbatim>\<open>#{content}\<close> replaced by the text of an ambient string or byte
  slice, every \<^verbatim>\<open>#{file}\<close> by the name of an ambient file, every other placeholder of
  a bound name by the text of its variable, and all the rest, the placeholders of no
  value included, as it was. The result depends on the list of entries through the map
  it lists only, so not on the order. The two examples of the claim are instances.
\<close>

theorem Exec_substitution_plain:
  "plain_template toks \<and>
   (\<forall>(k, x) \<in> set vs. matches_letters k \<and> textual x \<and> CHR ''#'' \<notin> set (text_of x)) \<and>
   CHR ''#'' \<notin> set (text_of d) \<Longrightarrow>
   Exec_resolve (render toks) (VInterceptExec d vs) =
     (concat (map (expand d (map_of vs)) toks), None)"
proof -
  assume h: "plain_template toks \<and>
   (\<forall>(k, x) \<in> set vs. matches_letters k \<and> textual x \<and> CHR ''#'' \<notin> set (text_of x)) \<and>
   CHR ''#'' \<notin> set (text_of d)"
  then have p: "plain_template toks" and d: "CHR ''#'' \<notin> set (text_of d)"
    and v: "\<forall>(k, x) \<in> set vs. matches_letters k \<and> textual x \<and> CHR ''#'' \<notin> set (text_of x)"
    by blast+
  from replaceAmbient_render [OF p d] obtain toks' where
    a: "replaceAmbient (render toks) d = render toks'" and p': "plain_template toks'"
    and e: "\<forall>m. map (tok_text m) toks' = map (expand d m) toks"
    by blast
  have "Exec_resolve (render toks) (VInterceptExec d vs) = replaceVars vs (render toks')"
    using a by (simp add: Exec_resolve_def)
  also have "\<dots> = (concat (map (tok_text (map_of vs)) toks'), None)"
    using v p' by (rule replaceVars_render)
  also have "\<dots> = (concat (map (expand d (map_of vs)) toks), None)"
    using e by simp
  finally show ?thesis .
qed

theorem Exec_substitution_plain_witness:
  "plain_template [Ph ''a'', Lit ''-'', Ph ''content'', Lit ''-'', Ph ''b''] \<and>
   render [Ph ''a'', Lit ''-'', Ph ''content'', Lit ''-'', Ph ''b''] = ''#{a}-#{content}-#{b}'' \<and>
   Exec_resolve ''#{a}-#{content}-#{b}'' (VInterceptExec (VString ''Z'')
      [(''a'', VString ''X''), (''b'', VFile (OsFile ''/tmp/y'' 3))]) = (''X-Z-/tmp/y'', None) \<and>
   Exec_resolve ''#{a}-#{content}-#{b}'' (VInterceptExec (VString ''Z'')
      [(''b'', VFile (OsFile ''/tmp/y'' 3)), (''a'', VString ''X'')]) = (''X-Z-/tmp/y'', None) \<and>
   render [Lit ''echo '', Ph ''nope''] = ''echo #{nope}'' \<and>
   Exec_resolve ''echo #{nope}'' (VInterceptExec VNil []) = (''echo #{nope}'', None) \<and>
   Exec_resolve ''echo #{nope}'' (VInterceptExec (VFile (OsFile ''/tmp/y'' 3))
      [(''a'', VBytes ''{X}'')]) = (''echo #{nope}'', None)"
  using Exec_substitution_plain [of "[Ph ''a'', Lit ''-'', Ph ''content'', Lit ''-'', Ph ''b'']"
      "[(''a'', VString ''X''), (''b'', VFile (OsFile ''/tmp/y'' 3))]" "VString ''Z''"]
    Exec_substitution_plain [of "[Ph ''a'', Lit ''-'', Ph ''content'', Lit ''-'', Ph ''b'']"
      "[(''b'', VFile (OsFile ''/tmp/y'' 3)), (''a'', VString ''X'')]" "VString ''Z''"]
    Exec_substitution_plain [of "[Lit ''echo '', Ph ''nope'']" "[]" VNil]
    Exec_substitution_plain [of "[Lit ''echo '', Ph ''nope'']" "[(''a'', VBytes ''{X}'')]"
      "VFile (OsFile ''/tmp/y'' 3)"]
  by (simp add: plain_template_def matches_letters_def letters_def placeholder_def textual_def
      text_of_def expand_def)

section \<open>The process executor\<close>

text \<open>
  Claim C4. The executor is to return a non-nil error exactly when the command exits with
  a non-zero status, cannot be started, or the draining of one of its output streams
  fails. In \<open>doExecute\<close> the test of \<open>errOut\<close> and \<open>errErr\<close> returns the variable
  \<open>err\<close>, which holds the nil result of \<open>cmd.Wait()\<close> at that point: a command that
  exits with status zero while the copy of its standard output fails yields a nil output
  together with a nil error.
\<close>

theorem doExecute_drain_failure_returns_nil_error:
  "doExecute \<lparr>getwd_err = None, stdout_pipe_err = None, stderr_pipe_err = None,
     start_err = None, wait_err = None, errOut = Some ''short write'', errErr = None,
     outBuff = ''hi''\<rparr> = (VNil, None)"
  by (simp add: doExecute_def)

theorem doExecute_drain_failure_witness:
  "snd (doExecute \<lparr>getwd_err = None, stdout_pipe_err = None, stderr_pipe_err = None,
     start_err = None, wait_err = None, errOut = Some ''short write'', errErr = None,
     outBuff = ''hi''\<rparr>) = None"
  using doExecute_drain_failure_returns_nil_error by simp

section \<open>The value after SaveInVar\<close>

text \<open>
  Claim C5. A stage \<open>SaveInVar n\<close> with an accepted name succeeds and returns the marker
  \<open>VSave n v\<close>, holding the name and the value it was given. When the name is not bound
  yet, the loop binds it and goes on with the marker as \<open>input\<close>: the next stage is called
  with the marker, inside the envelope when it is a closure of \<open>Exec\<close>. When the stage is
  the last one, whether the name was bound or not, the marker is the value that \<open>Run\<close>
  returns.
\<close>

theorem SaveInVar_passes_marker:
  "matches_letters n \<and> n \<noteq> ''content'' \<and> n \<noteq> ''file'' \<Longrightarrow>
   call (SaveInVar n) v w = ((VSave n v, None), w) \<and>
   (n \<notin> set (map fst (vars s)) \<longrightarrow>
      run_stages (SaveInVar n # rest) s w =
        run_stages rest
          (s\<lparr>input := VSave n (input s), err := None, vars := vars s @ [(n, input s)]\<rparr>) w \<and>
      stage_arg st
          (s\<lparr>input := VSave n (input s), err := None, vars := vars s @ [(n, input s)]\<rparr>) =
        (if is_exec st then VInterceptExec (VSave n (input s)) (vars s @ [(n, input s)])
         else VSave n (input s))) \<and>
   (err (final_state pre w) = None \<longrightarrow>
      fst (fst (Run (pre @ [SaveInVar n]) w)) = VSave n (input (final_state pre w)))"
proof (intro conjI impI)
  assume ok: "matches_letters n \<and> n \<noteq> ''content'' \<and> n \<noteq> ''file''"
  show "call (SaveInVar n) v w = ((VSave n v, None), w)"
    using ok by (rule SaveInVar_call)
  have c: "\<And>s w. call (SaveInVar n) (stage_arg (SaveInVar n) s) w = ((VSave n (input s), None), w)"
    using ok by (simp add: SaveInVar_call SaveInVar_not_exec)
  {
    assume fresh: "n \<notin> set (map fst (vars s))"
    show "run_stages (SaveInVar n # rest) s w =
        run_stages rest
          (s\<lparr>input := VSave n (input s), err := None, vars := vars s @ [(n, input s)]\<rparr>) w"
      using run_step_save [OF c] fresh by simp
  }
  show "stage_arg st
          (s\<lparr>input := VSave n (input s), err := None, vars := vars s @ [(n, input s)]\<rparr>) =
        (if is_exec st then VInterceptExec (VSave n (input s)) (vars s @ [(n, input s)])
         else VSave n (input s))"
    by (simp add: stage_arg_def)
  {
    assume pre: "err (final_state pre w) = None"
    obtain s1 w1 where r: "run_stages pre init_state w = (s1, w1)" by (metis surj_pair)
    with pre have e1: "err s1 = None" and fs: "final_state pre w = s1"
      by (simp_all add: final_state_def)
    have "run_stages (pre @ [SaveInVar n]) init_state w = run_stages [SaveInVar n] s1 w1"
      using run_stages_append [of init_state pre "[SaveInVar n]" w] r e1
      by (simp add: init_state_def)
    moreover have "input (fst (run_stages [SaveInVar n] s1 w1)) = VSave n (input s1)"
      using run_step_save [OF c, of s1 w1] by simp
    ultimately show "fst (fst (Run (pre @ [SaveInVar n]) w)) = VSave n (input (final_state pre w))"
      unfolding Run_value fs by (simp add: final_state_def)
  }
qed

theorem SaveInVar_passes_marker_witness:
  "matches_letters ''greeting'' \<and>
   call (SaveInVar ''greeting'') (VString ''hello'') world0 =
     ((VSave ''greeting'' (VString ''hello''), None), world0) \<and>
   fst (run_stages [SaveInVar ''greeting'', Insert VNil] (init_state\<lparr>input := VString ''hello''\<rparr>) world0) =
   fst (run_stages [Insert VNil] (init_state\<lparr>input := VSave ''greeting'' (VString ''hello''),
       err := None, vars := [(''greeting'', VString ''hello'')]\<rparr>) world0) \<and>
   err (final_state [Insert (VString ''hello'')] world0) = None \<and>
   fst (fst (Run ([Insert (VString ''hello'')] @ [SaveInVar ''greeting'']) world0)) =
     VSave ''greeting'' (VString ''hello'')"
  using SaveInVar_passes_marker [of "''greeting''" "VString ''hello''" world0
      "init_state\<lparr>input := VString ''hello''\<rparr>" "[Insert VNil]" "Insert VNil"
      "[Insert (VString ''hello'')]"]
  by (simp add: eval_defs)

section \<open>Binding a name twice\<close>

text \<open>
  Claim C6. A second attempt to bind a name is to fail with the error
  \<^verbatim>\<open>variable: a already exists\<close>, with no stage called after it and the first binding
  kept. The loop over the stages does so (lemma \<open>run_stages_duplicate\<close>): it is left with
  that error in \<open>err\<close> and the variables unchanged. With a file registered, the cleanup
  then assigns the nil of its successful removal to \<open>err\<close>, as in claim C1: after
  \<open>WriteTempFile\<close>, the second \<open>SaveInVar\<close> of the name \<open>a\<close> ends the loop with the
  error, and \<open>Run\<close> returns a nil error. Without a file, \<open>Run\<close> returns the error, as the
  test \<^verbatim>\<open>duplicate var\<close> of the package expects.
\<close>

theorem Run_discards_duplicate_error:
  "err (final_state [Insert (VString ''x''), WriteTempFile, SaveInVar ''a'', SaveInVar ''a''] world0) =
     Some ''variable: a already exists'' \<and>
   vars (final_state [Insert (VString ''x''), WriteTempFile, SaveInVar ''a'', SaveInVar ''a''] world0) =
     [(''a'', VFile (OsFile ''/tmp/godo-temporary-file0'' 0))] \<and>
   \<not> cleanup_failed [Insert (VString ''x''), WriteTempFile, SaveInVar ''a'', SaveInVar ''a''] world0 \<and>
   fst (Run [Insert (VString ''x''), WriteTempFile, SaveInVar ''a'', SaveInVar ''a''] world0) =
     (VSave ''a'' (VSave ''a'' (VFile (OsFile ''/tmp/godo-temporary-file0'' 0))), None) \<and>
   fst (Run [Insert (VString ''x''), SaveInVar ''a'', SaveInVar ''a''] world0) =
     (VSave ''a'' (VSave ''a'' (VString ''x'')), Some ''variable: a already exists'')"
  by (simp add: eval_defs msg_duplicate_def)

section \<open>The two runs of Split\<close>

text \<open>
  Claim C7. The stage of \<open>Split left right\<close> is called with the value \<open>v\<close> alone, not
  with the variables of the run it is a stage of. It runs \<open>Insert v\<close> followed by
  \<open>left\<close>; when that run returns an error, the stage returns \<open>v\<close> with this error in
  the system as the left run left it, whatever \<open>right\<close> is. Otherwise it runs
  \<open>Insert v\<close> followed by \<open>right\<close>: an error of that run is returned with \<open>v\<close>, and
  without error the result is the pair of the two values. Each of the two runs starts
  from variables and lists that hold nothing but what \<open>v\<close> itself brings.
\<close>

theorem Split_runs_left_then_right:
  "stage_arg (Split left right) s = input s \<and>
   (\<forall>l e w1. Run (Insert v # left) w = ((l, Some e), w1) \<longrightarrow>
      call (Split left right) v w = ((v, Some e), w1)) \<and>
   (\<forall>l w1 r e w2. Run (Insert v # left) w = ((l, None), w1) \<and>
        Run (Insert v # right) w1 = ((r, Some e), w2) \<longrightarrow>
      call (Split left right) v w = ((v, Some e), w2)) \<and>
   (\<forall>l w1 r w2. Run (Insert v # left) w = ((l, None), w1) \<and>
        Run (Insert v # right) w1 = ((r, None), w2) \<longrightarrow>
      call (Split left right) v w = ((VSplitResult l r, None), w2)) \<and>
   (\<forall>stages w0. Run (Insert v # stages) w0 =
      (case run_stages stages (branch_state v) w0 of
         (s1, w1) \<Rightarrow> (case cleanup s1 w1 of ((b, e), w2) \<Rightarrow> ((input s1, e), w2))))"
  by (simp add: Split_def Split_fn_def stage_arg_def Run_Insert)

theorem Split_runs_left_then_right_witness:
  "Run (Insert (VString ''x'') # [SaveInVar ''a'']) world0 =
     ((VSave ''a'' (VString ''x''), None), world0) \<and>
   call (Split [SaveInVar ''a''] [SaveInVar ''a'']) (VString ''x'') world0 =
     ((VSplitResult (VSave ''a'' (VString ''x'')) (VSave ''a'' (VString ''x'')), None), world0) \<and>
   Run (Insert (VString ''x'') # [SaveInVar ''1bad'']) world0 =
     ((VNil, Some msg_invalid_name), world0) \<and>
   call (Split [SaveInVar ''1bad''] [WriteTempFile]) (VString ''x'') world0 =
     ((VString ''x'', Some msg_invalid_name), world0) \<and>
   call (Split [SaveInVar ''a''] [SaveInVar ''1bad'']) (VString ''x'') world0 =
     ((VString ''x'', Some msg_invalid_name), world0)"
  using Split_runs_left_then_right [of "[SaveInVar ''a'']" "[SaveInVar ''a'']" init_state
      "VString ''x''" world0]
    Split_runs_left_then_right [of "[SaveInVar ''1bad'']" "[WriteTempFile]" init_state
      "VString ''x''" world0]
    Split_runs_left_then_right [of "[SaveInVar ''a'']" "[SaveInVar ''1bad'']" init_state
      "VString ''x''" world0]
  by (simp add: eval_defs)

section \<open>Variables of unsupported type\<close>

text \<open>
  Claim C8, as stated: when the value of a bound variable is neither a string, a byte
  slice nor a file, the substitution fails with an error that names the variable. It
  fails, but the message of \<open>replaceVar\<close> is a fixed text: it is the same for the
  variables \<open>zq\<close> and \<open>other\<close>, and \<open>zq\<close> does not occur in it.
\<close>

theorem Exec_error_does_not_name_variable:
  "Exec_resolve ''echo #{zq}'' (VInterceptExec VNil [(''zq'', VNil)]) = ([], Some msg_replace) \<and>
   Exec_resolve ''echo #{zq}'' (VInterceptExec VNil [(''other'', VOther 1)]) = ([], Some msg_replace) \<and>
   \<not> Contains msg_replace ''zq''"
  by (simp add: Exec_resolve_def replaceAmbient_def replaceVar_def msg_replace_def)

text \<open>
  Claim C8, amended: when the value of some bound variable is neither a string, a byte
  slice nor a file, the substitution fails with the fixed error of \<open>replaceVar\<close>, whatever
  the template, the value of the previous stage and the order of the entries; the stage
  then returns nil with that error and no command is run: the system is as it was, but
  for the captured \<open>cmd\<close>, which is left empty.
\<close>

theorem Exec_unsupported_variable:
  "(n, v) \<in> set vs \<and> \<not> textual v \<Longrightarrow>
   Exec_resolve cmd (VInterceptExec d vs) = ([], Some msg_replace) \<and>
   (set (range_order vs) = set vs \<longrightarrow>
      Exec_fn shell range_order a (VInterceptExec d vs) w =
        ((VNil, Some msg_replace), w\<lparr>cells := (cells w)(a := [])\<rparr>))"
  by (auto simp add: Exec_resolve_def Exec_fn_def replaceVars_unsupported)

theorem Exec_unsupported_variable_witness:
  "Exec_resolve ''cat #{f} #{x}'' (VInterceptExec (VString ''Z'')
      [(''f'', VString ''a''), (''x'', VSplitResult VNil VNil)]) = ([], Some msg_replace) \<and>
   fst (Exec_fn echo_shell rev 0 (VInterceptExec (VString ''Z'')
      [(''f'', VString ''a''), (''x'', VSplitResult VNil VNil)])
      (world0\<lparr>cells := (cells world0)(0 := ''cat #{f} #{x}'')\<rparr>)) =
     (VNil, Some msg_replace) \<and>
   cells (snd (Exec_fn echo_shell rev 0 (VInterceptExec (VString ''Z'')
      [(''f'', VString ''a''), (''x'', VSplitResult VNil VNil)])
      (world0\<lparr>cells := (cells world0)(0 := ''cat #{f} #{x}'')\<rparr>))) 0 = [] \<and>
   calls (snd (Exec_fn echo_shell rev 0 (VInterceptExec (VString ''Z'')
      [(''f'', VString ''a''), (''x'', VSplitResult VNil VNil)])
      (world0\<lparr>cells := (cells world0)(0 := ''cat #{f} #{x}'')\<rparr>))) = []"
  using Exec_unsupported_variable [of "''x''" "VSplitResult VNil VNil"
      "[(''f'', VString ''a''), (''x'', VSplitResult VNil VNil)]" "''cat #{f} #{x}''"
      "VString ''Z''" rev echo_shell 0 "world0\<lparr>cells := (cells world0)(0 := ''cat #{f} #{x}'')\<rparr>"]
  by (simp add: textual_def insert_commute world0_def)

section \<open>The captured command template\<close>

text \<open>
  Claim C9. The template of an \<open>Exec\<close> stage is to stay as it was given, so that two calls
  of the same stage function with the same input and the same variables resolve to the
  same command. The closure assigns every result of a replacement to the variable \<open>cmd\<close>
  it captured: the second call starts from the text the first one left. With the template
  \<^verbatim>\<open>echo #{content}\<close> in cell 0 and the input \<^verbatim>\<open>a#{content}\<close>, the first call runs
  \<^verbatim>\<open>echo a#{content}\<close> and the second \<^verbatim>\<open>echo aa#{content}\<close>.
\<close>

theorem Exec_invocation_rewrites_template:
  "(let w = world0\<lparr>cells := (cells world0)(0 := ''echo #{content}'')\<rparr>;
        v = VInterceptExec (VString ''a#{content}'') [];
        (r1, w1) = Exec_fn echo_shell id 0 v w;
        (r2, w2) = Exec_fn echo_shell id 0 v w1
    in r1 = (VBytes ''echo a#{content}'', None) \<and> cells w1 0 = ''echo a#{content}'' \<and>
       r2 = (VBytes ''echo aa#{content}'', None) \<and> cells w2 0 = ''echo aa#{content}'' \<and>
       r1 \<noteq> r2)"
  by (simp add: world0_def Exec_fn_def Exec_resolve_def replaceAmbient_def echo_shell_def
      doExecute_def)

theorem Exec_invocation_rewrites_template_witness:
  "fst (Exec_fn echo_shell id 0 (VInterceptExec (VString ''a#{content}'') [])
        (world0\<lparr>cells := (cells world0)(0 := ''echo #{content}'')\<rparr>)) =
     (VBytes ''echo a#{content}'', None) \<and>
   fst (Exec_fn echo_shell id 0 (VInterceptExec (VString ''a#{content}'') [])
        (snd (Exec_fn echo_shell id 0 (VInterceptExec (VString ''a#{content}'') [])
           (world0\<lparr>cells := (cells world0)(0 := ''echo #{content}'')\<rparr>)))) =
     (VBytes ''echo aa#{content}'', None)"
  using Exec_invocation_rewrites_template
  by (simp add: Let_def split_def)

section \<open>ExcludeLines on an input that is no text\<close>

text \<open>
  Claim C10. For every input that is neither a string nor a byte slice, nil and files
  included, the stage of \<open>ExcludeLines\<close> returns the empty string and a nil error.
\<close>

theorem ExcludeLines_unsupported_input:
  "(\<forall>d. v \<noteq> VString d) \<and> (\<forall>d. v \<noteq> VBytes d) \<Longrightarrow>
   ExcludeLines_fn separator exclusions v = (VString [], None) \<and>
   call (ExcludeLines separator exclusions) v w = ((VString [], None), w)"
  by (cases v) (simp_all add: ExcludeLines_fn_def ExcludeLines_def)

theorem ExcludeLines_unsupported_input_witness:
  "ExcludeLines_fn [CHR 0x0A] [''hi''] VNil = (VString [], None) \<and>
   ExcludeLines_fn [CHR 0x0A] [''hi''] (VFile (OsFile ''/tmp/y'' 3)) = (VString [], None) \<and>
   call (ExcludeLines [CHR 0x0A] [''hi'']) (VOther 7) world0 = ((VString [], None), world0)"
  using ExcludeLines_unsupported_input [of VNil "[CHR 0x0A]" "[''hi'']" world0]
    ExcludeLines_unsupported_input [of "VFile (OsFile ''/tmp/y'' 3)" "[CHR 0x0A]" "[''hi'']" world0]
    ExcludeLines_unsupported_input [of "VOther 7" "[CHR 0x0A]" "[''hi'']" world0]
  by simp

end
